theory Spec2Isabelle
  imports Complex_Main "HOL-Library.AList"
begin

section \<open>The environment API of posggym/core.py\<close>

text \<open>
  Exceptions are values. \<open>ValueError\<close> is what Python raises when a tuple is unpacked
  into the wrong number of names; \<open>AttributeError\<close> carries its message. The other
  constructors are the error taxonomy of section 7 of the specification
  (\<open>InvariantViolation\<close> stands for its fatal internal invariant violations); no class
  of these names is defined in the sources.
\<close>

type_synonym agent_id = string

datatype exn =
    ValueError
  | AttributeError string
  | InvalidStateError
  | InvalidActionError agent_id
  | NoFreeCellError
  | InvariantViolation

text \<open>
  \<open>class Wrapper(Env)\<close> and its three subclasses. The abstract methods
  \<open>observations\<close>, \<open>rewards\<close>, \<open>actions\<close> and \<open>reverse_actions\<close> are supplied by the
  concrete subclass, so they are fields of the constructor.
\<close>

datatype ('a, 'c) wrapper_class =
    Wrapper
  | ObservationWrapper "'c \<Rightarrow> 'c"
  | RewardWrapper "'c \<Rightarrow> 'c"
  | ActionWrapper "'a \<Rightarrow> 'a" "'a \<Rightarrow> 'a"

text \<open>
  An environment object is a base (non-wrapper) \<open>Env\<close> of some concrete class, whose state
  is a value of type \<open>'b\<close>, or a wrapper object holding its class, the attributes that
  normal lookup finds on it, and \<open>self.env\<close>.
\<close>

datatype ('b, 'a, 'c, 'v) env =
    Base 'b
  | Wrapped "('a, 'c) wrapper_class" "(string \<times> 'v) list" "('b, 'a, 'c, 'v) env"

text \<open>\<open>Env.unwrapped\<close> returns \<open>self\<close>; \<open>Wrapper.unwrapped\<close> returns \<open>self.env.unwrapped\<close>.\<close>

fun unwrapped :: "('b, 'a, 'c, 'v) env \<Rightarrow> ('b, 'a, 'c, 'v) env" where
  "unwrapped (Base b) = Base b"
| "unwrapped (Wrapped k own e) = unwrapped e"

text \<open>
  \<open>observations, reward, done, info = self.env.step(actions)\<close>: the unpacking succeeds on
  exactly four components.
\<close>

fun unpack4 :: "'c list \<Rightarrow> exn + ('c \<times> 'c \<times> 'c \<times> 'c)" where
  "unpack4 [x1, x2, x3, x4] = Inr (x1, x2, x3, x4)"
| "unpack4 _ = Inl ValueError"

text \<open>
  \<open>step\<close> of each class. \<open>Env.step\<close> is abstract: the step of the base class is the
  parameter \<open>bs\<close>, which returns the result tuple (or the exception raised) and the new
  state of the base object. An exception of the inner call propagates.
\<close>

fun wrapper_step_result ::
  "('a, 'c) wrapper_class \<Rightarrow> exn + 'c list \<Rightarrow> exn + 'c list" where
  "wrapper_step_result Wrapper r = r"
| "wrapper_step_result (ActionWrapper actions reverse_actions) r = r"
| "wrapper_step_result (ObservationWrapper observations) (Inl x) = Inl x"
| "wrapper_step_result (ObservationWrapper observations) (Inr t) =
     (case unpack4 t of
        Inl x \<Rightarrow> Inl x
      | Inr (obs, reward, done, info) \<Rightarrow> Inr [observations obs, reward, done, info])"
| "wrapper_step_result (RewardWrapper rewards) (Inl x) = Inl x"
| "wrapper_step_result (RewardWrapper rewards) (Inr t) =
     (case unpack4 t of
        Inl x \<Rightarrow> Inl x
      | Inr (obs, reward, done, info) \<Rightarrow> Inr [obs, rewards reward, done, info])"

fun wrapper_step_actions :: "('a, 'c) wrapper_class \<Rightarrow> 'a \<Rightarrow> 'a" where
  "wrapper_step_actions (ActionWrapper actions reverse_actions) a = actions a"
| "wrapper_step_actions _ a = a"

fun step ::
  "('b \<Rightarrow> 'a \<Rightarrow> (exn + 'c list) \<times> 'b) \<Rightarrow> ('b, 'a, 'c, 'v) env \<Rightarrow> 'a
     \<Rightarrow> (exn + 'c list) \<times> ('b, 'a, 'c, 'v) env" where
  "step bs (Base b) a = (case bs b a of (r, b') \<Rightarrow> (r, Base b'))"
| "step bs (Wrapped k own e) a =
     (case step bs e (wrapper_step_actions k a) of
        (r, e') \<Rightarrow> (wrapper_step_result k r, Wrapped k own e'))"

text \<open>
  \<open>reset(**kwargs)\<close>: every wrapper forwards the keyword arguments (the optional seed);
  \<open>ObservationWrapper.reset\<close> transforms the observations that come back.
\<close>

fun wrapper_reset_result :: "('a, 'c) wrapper_class \<Rightarrow> exn + 'c \<Rightarrow> exn + 'c" where
  "wrapper_reset_result (ObservationWrapper observations) (Inr obs) = Inr (observations obs)"
| "wrapper_reset_result _ r = r"

fun reset ::
  "('b \<Rightarrow> nat option \<Rightarrow> (exn + 'c) \<times> 'b) \<Rightarrow> ('b, 'a, 'c, 'v) env \<Rightarrow> nat option
     \<Rightarrow> (exn + 'c) \<times> ('b, 'a, 'c, 'v) env" where
  "reset br (Base b) seed = (case br b seed of (r, b') \<Rightarrow> (r, Base b'))"
| "reset br (Wrapped k own e) seed =
     (case reset br e seed of (r, e') \<Rightarrow> (wrapper_reset_result k r, Wrapped k own e'))"

text \<open>
  Attribute access. Python calls \<open>__getattr__\<close> only when normal lookup fails, that is,
  when the name is not among the wrapper's own attributes.
\<close>

fun startswith_underscore :: "string \<Rightarrow> bool" where
  "startswith_underscore [] = False"
| "startswith_underscore (c # cs) = (c = CHR ''_'')"

definition missing_private_message :: "string \<Rightarrow> string" where
  "missing_private_message name =
     ''attempted to get missing private attribute '' @ [CHR 0x27] @ name @ [CHR 0x27]"

definition Wrapper_getattr :: "string \<Rightarrow> exn + 'v \<Rightarrow> exn + 'v" where
  "Wrapper_getattr name from_env =
     (if startswith_underscore name then Inl (AttributeError (missing_private_message name))
      else from_env)"

fun getattr ::
  "('b \<Rightarrow> string \<Rightarrow> exn + 'v) \<Rightarrow> ('b, 'a, 'c, 'v) env \<Rightarrow> string \<Rightarrow> exn + 'v" where
  "getattr bg (Base b) name = bg b name"
| "getattr bg (Wrapped k own e) name =
     (case map_of own name of
        Some v \<Rightarrow> Inr v
      | None \<Rightarrow> Wrapper_getattr name (getattr bg e name))"


text \<open>
  Two readings of an environment object used to state properties: the state of
  \<open>env.unwrapped\<close>, and the joint action that reaches the base environment when
  \<open>step\<close> is called on the outermost wrapper (every \<open>ActionWrapper\<close> on the way applies
  its \<open>actions\<close>).
\<close>

fun base_of :: "('b, 'a, 'c, 'v) env \<Rightarrow> 'b" where
  "base_of (Base b) = b"
| "base_of (Wrapped k own e) = base_of e"

fun inner_actions :: "('b, 'a, 'c, 'v) env \<Rightarrow> 'a \<Rightarrow> 'a" where
  "inner_actions (Base b) a = a"
| "inner_actions (Wrapped k own e) a = inner_actions e (wrapper_step_actions k a)"

subsection \<open>Two base environments used as concrete inputs\<close>

text \<open>
  A base environment in the shape \<open>Env.step\<close> documents: the state counts the steps taken,
  the result is \<open>(observations, rewards, done, info)\<close> with the joint action echoed as the
  observation, and \<open>done\<close> (written 0 or 1) is set from the second step on. Like the
  docstring says of further calls after \<open>done\<close>, it keeps returning results.
\<close>

definition four_tuple_step :: "nat \<Rightarrow> nat \<Rightarrow> (exn + nat list) \<times> nat" where
  "four_tuple_step t a = (Inr [a, 1, of_bool (0 < t), 0], Suc t)"

text \<open>
  The same environment returning the six components \<open>(observations, rewards, terminated,
  truncated, done, info)\<close> that \<^verbatim>\<open>docs/scripts/gen_gifs.py\<close> unpacks.
\<close>

definition six_tuple_step :: "nat \<Rightarrow> nat \<Rightarrow> (exn + nat list) \<times> nat" where
  "six_tuple_step t a = (Inr [a, 1, of_bool (0 < t), 0, of_bool (0 < t), 0], Suc t)"

definition example_getattr :: "nat \<Rightarrow> string \<Rightarrow> exn + nat" where
  "example_getattr t name =
     (if name = ''_step_num'' then Inr t
      else if name = ''n_agents'' then Inr 2
      else Inl (AttributeError name))"

section \<open>The observation parsing of the heuristic policies (heuristic.py)\<close>

text \<open>
  A \<open>Coord\<close> is a pair of integers. The policies read an observation, once parsed, as
  a list of entries \<open>(y, x, level)\<close>: \<open>agent_obs\<close>, whose first entry is the
  observing agent's own, and \<open>food_obs\<close>.
\<close>

type_synonym coord = "int \<times> int"

type_synonym obs_entry = "int \<times> int \<times> int"


text \<open>
  From \<^verbatim>\<open>heuristic.py\<close>. \<open>LBFHeuristicPolicy.get_next_state\<close> keeps, of the other agents'
  entries \<open>agent_obs[1:]\<close>, those with \<open>o[0] > -1\<close>.
\<close>

definition other_agent_obs :: "obs_entry list \<Rightarrow> obs_entry list" where
  "other_agent_obs agent_obs = filter (\<lambda>ob. fst ob > -1) (tl agent_obs)"

text \<open>
  \<open>LBFHeuristicPolicy._get_food_by_distance\<close>. The dictionary \<open>food_distances\<close> maps a
  squared distance to the coordinates found at it, in the order of \<open>food_obs\<close>; an entry
  with \<open>x == -1\<close>, or with a level above \<open>max_food_level\<close> when one is given, is skipped.
  The result is the list handed to \<open>self._rng.choice\<close>, or \<open>None\<close> when no food is in
  sight.
\<close>

fun food_distances ::
  "coord \<Rightarrow> int option \<Rightarrow> obs_entry list \<Rightarrow> (int \<times> coord list) list \<Rightarrow> (int \<times> coord list) list" where
  "food_distances agent_pos max_food_level [] acc = acc"
| "food_distances agent_pos max_food_level ((y, x, level) # food_obs) acc =
     (if x = -1 \<or> (case max_food_level of None \<Rightarrow> False | Some m \<Rightarrow> level > m)
      then food_distances agent_pos max_food_level food_obs acc
      else
        (let distance = (fst agent_pos - y) * (fst agent_pos - y)
                        + (snd agent_pos - x) * (snd agent_pos - x);
             found = (case map_of acc distance of None \<Rightarrow> [] | Some cs \<Rightarrow> cs)
         in food_distances agent_pos max_food_level food_obs
              (AList.update distance (found @ [(y, x)]) acc)))"

definition get_food_by_distance ::
  "coord \<Rightarrow> obs_entry list \<Rightarrow> bool \<Rightarrow> int option \<Rightarrow> coord list option" where
  "get_food_by_distance agent_pos food_obs closest max_food_level =
     (let fd = food_distances agent_pos max_food_level food_obs [] in
      if length fd = 0 then None
      else
        (let keys = map fst fd;
             desired_dist = (if closest then Min (set keys) else Max (set keys))
         in map_of fd desired_dist))"

section \<open>The grid-world engine described by the specification\<close>

text \<open>
  The sources import the grid-world environments (\<open>posggym.envs.grid_world\<close>) and the
  default driver (\<open>core.DefaultEnv\<close>) but do not contain them. Their model below follows
  sections 3 and 4 of the specification sentence by sentence.
\<close>

subsection \<open>Grid\<close>

text \<open>Modelled from the spec: the Direction enumeration of section 3 (the grid-world core
  module is missing).\<close>

datatype direction = NORTH | SOUTH | EAST | WEST | NONE

text \<open>Modelled from the spec: the unit Coord delta a Direction maps to, section 3 (the
  grid-world core module is missing). The y axis points south.\<close>

fun unit_delta :: "direction \<Rightarrow> coord" where
  "unit_delta NORTH = (0, -1)"
| "unit_delta SOUTH = (0, 1)"
| "unit_delta EAST = (1, 0)"
| "unit_delta WEST = (-1, 0)"
| "unit_delta NONE = (0, 0)"

text \<open>Modelled from the spec: the Grid of section 3 (the grid class is missing): width,
  height and the set of blocked coordinates.\<close>

record grid =
  width :: int
  height :: int
  blocked :: "coord list"

text \<open>Modelled from the spec: the bounds \<open>[0, width) \<times> [0, height)\<close> of the Grid invariant
  of section 3 (the grid class is missing).\<close>

definition in_bounds :: "grid \<Rightarrow> coord \<Rightarrow> bool" where
  "in_bounds gr c = (0 \<le> fst c \<and> fst c < width gr \<and> 0 \<le> snd c \<and> snd c < height gr)"

text \<open>Modelled from the spec: \<open>Grid.is_blocked\<close> of section 4.1 (missing). An out-of-bounds
  coordinate is a programming error, raised as an internal invariant violation.\<close>

definition is_blocked :: "grid \<Rightarrow> coord \<Rightarrow> exn + bool" where
  "is_blocked gr c = (if in_bounds gr c then Inr (c \<in> set (blocked gr)) else Inl InvariantViolation)"

text \<open>Modelled from the spec: \<open>Grid.neighbor\<close> of section 4.1 (missing): the coordinate
  shifted by the direction's unit delta, not clipped.\<close>

definition neighbor :: "coord \<Rightarrow> direction \<Rightarrow> coord" where
  "neighbor c d = (fst c + fst (unit_delta d), snd c + snd (unit_delta d))"

subsection \<open>The random number generator\<close>

text \<open>Modelled from the spec: the per-instance seeded RNG of sections 4.5 and 5 (the
  seeding utilities are missing). It is an external capability: seeding, a uniform draw
  from the unit interval and a uniform index below a bound, each returning the next
  generator state.\<close>

record 'g rng_ops =
  rng_seed :: "nat \<Rightarrow> 'g"
  rng_random :: "'g \<Rightarrow> real \<times> 'g"
  rng_choice :: "'g \<Rightarrow> nat \<Rightarrow> nat \<times> 'g"

subsection \<open>CollisionResolver\<close>

text \<open>Modelled from the spec: the configuration surface of section 6 that the resolver
  reads (the grid-world models are missing).\<close>

record resolver_config =
  action_probs :: real
  obstacle_collisions :: bool
  action_set :: "direction list"

text \<open>Modelled from the spec: step 2 of the CollisionResolver algorithm of section 4.2
  (missing): with probability \<open>1 - action_probs\<close> the chosen action is replaced by a
  uniformly sampled alternative of the agent's action set, using the seeded RNG. When the
  action set holds no alternative the chosen action stays.\<close>

definition substitute_action ::
  "'g rng_ops \<Rightarrow> resolver_config \<Rightarrow> 'g \<Rightarrow> direction \<Rightarrow> direction \<times> 'g" where
  "substitute_action ops cfg g a =
     (case rng_random ops g of (u, g1) \<Rightarrow>
        if u < action_probs cfg then (a, g1)
        else (let alternatives = filter (\<lambda>d. d \<noteq> a) (action_set cfg) in
              if alternatives = [] then (a, g1)
              else (case rng_choice ops g1 (length alternatives) of
                      (k, g2) \<Rightarrow> (alternatives ! (k mod length alternatives), g2))))"

text \<open>Modelled from the spec: step 2 of section 4.2 (missing) for every agent in turn,
  each drawing from the generator state the previous one left.\<close>

fun substitute_actions ::
  "'g rng_ops \<Rightarrow> resolver_config \<Rightarrow> 'g \<Rightarrow> direction list \<Rightarrow> direction list \<times> 'g" where
  "substitute_actions ops cfg g [] = ([], g)"
| "substitute_actions ops cfg g (a # as) =
     (case substitute_action ops cfg g a of (a', g1) \<Rightarrow>
        (case substitute_actions ops cfg g1 as of (as', g2) \<Rightarrow> (a' # as', g2)))"

text \<open>Modelled from the spec: step 1 of the CollisionResolver algorithm of section 4.2
  (missing): the candidate next cell through \<open>Grid.neighbor\<close>; an out-of-bounds result is
  treated as blocked and the agent stays in place; with \<open>obstacle_collisions\<close> a blocked
  candidate is replaced by the current cell.\<close>

definition candidate_cell :: "grid \<Rightarrow> resolver_config \<Rightarrow> coord \<Rightarrow> direction \<Rightarrow> exn + coord" where
  "candidate_cell gr cfg cur a =
     (let c = neighbor cur a in
      if \<not> in_bounds gr c then Inr cur
      else if obstacle_collisions cfg then
        (case is_blocked gr c of
           Inl e \<Rightarrow> Inl e
         | Inr b \<Rightarrow> Inr (if b then cur else c))
      else Inr c)"

text \<open>Modelled from the spec: step 1 of section 4.2 (missing) for every agent of the
  joint move. An error of \<open>Grid.is_blocked\<close> would surface here.\<close>

fun candidate_cells ::
  "grid \<Rightarrow> resolver_config \<Rightarrow> (coord \<times> direction) list \<Rightarrow> exn + coord list" where
  "candidate_cells gr cfg [] = Inr []"
| "candidate_cells gr cfg ((cur, a) # ms) =
     (case candidate_cell gr cfg cur a of
        Inl e \<Rightarrow> Inl e
      | Inr c \<Rightarrow>
          (case candidate_cells gr cfg ms of
             Inl e \<Rightarrow> Inl e
           | Inr cs \<Rightarrow> Inr (c # cs)))"

text \<open>Modelled from the spec: step 3 of the CollisionResolver algorithm of section 4.2
  (missing): agents are grouped by candidate cell; \<open>claimants\<close> is the size of a cell's
  group.\<close>

definition claimants :: "coord list \<Rightarrow> coord \<Rightarrow> nat" where
  "claimants cands c = length (filter (\<lambda>c'. c' = c) cands)"

text \<open>Modelled from the spec: step 4 of the CollisionResolver algorithm of section 4.2
  (missing): a direct swap, an agent whose candidate cell is another agent's current cell
  while that agent's candidate cell is its own current cell.\<close>

definition direct_swap :: "(coord \<times> coord) list \<Rightarrow> coord \<Rightarrow> coord \<Rightarrow> bool" where
  "direct_swap pcs cur cand =
     (cand \<noteq> cur \<and> list_ex (\<lambda>(cur', cand'). cur' = cand \<and> cand' = cur) pcs)"

text \<open>Modelled from the spec: steps 3 to 5 of the CollisionResolver algorithm of section
  4.2 (missing): a cell claimed by more than one agent is rejected for all claimants, a
  direct swap is rejected when \<open>obstacle_collisions\<close> is enabled, and a rejected agent's next
  position is its current position.\<close>

definition next_position ::
  "resolver_config \<Rightarrow> (coord \<times> coord) list \<Rightarrow> coord \<Rightarrow> coord \<Rightarrow> coord" where
  "next_position cfg pcs cur cand =
     (if 1 < claimants (map snd pcs) cand \<or> (obstacle_collisions cfg \<and> direct_swap pcs cur cand)
      then cur else cand)"

text \<open>Modelled from the spec: the actions executed after step 2 of section 4.2
  (missing), for a joint set of proposed moves (current cell and chosen action per
  agent).\<close>

definition executed_actions ::
  "'g rng_ops \<Rightarrow> resolver_config \<Rightarrow> 'g \<Rightarrow> (coord \<times> direction) list \<Rightarrow> direction list" where
  "executed_actions ops cfg g moves = fst (substitute_actions ops cfg g (map snd moves))"

text \<open>Modelled from the spec: the candidate cells of step 1 of section 4.2 (missing)
  for the executed actions.\<close>

definition proposed_cells ::
  "'g rng_ops \<Rightarrow> grid \<Rightarrow> resolver_config \<Rightarrow> 'g \<Rightarrow> (coord \<times> direction) list \<Rightarrow> exn + coord list" where
  "proposed_cells ops gr cfg g moves =
     candidate_cells gr cfg (zip (map fst moves) (executed_actions ops cfg g moves))"

text \<open>Modelled from the spec: the CollisionResolver of section 4.2 (missing) as a whole:
  substitution, candidate cells, then one pass over the agents.\<close>

definition resolve ::
  "'g rng_ops \<Rightarrow> grid \<Rightarrow> resolver_config \<Rightarrow> 'g \<Rightarrow> (coord \<times> direction) list
     \<Rightarrow> (exn + coord list) \<times> 'g" where
  "resolve ops gr cfg g moves =
     (case substitute_actions ops cfg g (map snd moves) of (acts, g') \<Rightarrow>
        (case candidate_cells gr cfg (zip (map fst moves) acts) of
           Inl e \<Rightarrow> (Inl e, g')
         | Inr cands \<Rightarrow>
             (let pcs = zip (map fst moves) cands
              in (Inr (map (\<lambda>(cur, cand). next_position cfg pcs cur cand) pcs), g'))))"

subsection \<open>POSGModel and the Env driver\<close>

text \<open>Modelled from the spec: the JointTimestep of section 3 (the module
  \<open>posggym.model\<close> is missing).\<close>

record ('st, 'obs) joint_timestep =
  next_state :: 'st
  joint_observation :: "(agent_id \<times> 'obs) list"
  joint_reward :: "(agent_id \<times> real) list"
  terminated :: "(agent_id \<times> bool) list"
  truncated :: "(agent_id \<times> bool) list"
  episode_done :: bool
  agent_info :: "(agent_id \<times> string) list"

text \<open>Modelled from the spec: the POSGModel contract of section 4.4 (\<open>posggym.model\<close> is
  missing). The per-game parts are fields: membership in an agent's action space,
  initial state and observation, and the transition applied to a valid joint action.\<close>

record ('st, 'act, 'obs, 'g) posg_model =
  action_space_contains :: "agent_id \<Rightarrow> 'act \<Rightarrow> bool"
  sample_initial_state :: "'g \<Rightarrow> 'st \<times> 'g"
  sample_initial_obs :: "'st \<Rightarrow> (agent_id \<times> 'obs) list"
  transition :: "'st \<Rightarrow> (agent_id \<times> 'act) list \<Rightarrow> 'g \<Rightarrow> ('st, 'obs) joint_timestep \<times> 'g"

text \<open>Modelled from the spec: \<open>POSGModel.step\<close> of section 4.4 (missing): an action not
  contained in its agent's action space is rejected with an \<open>InvalidActionError\<close> naming
  the agent, before anything is applied.\<close>

definition model_step ::
  "('st, 'act, 'obs, 'g) posg_model \<Rightarrow> 'st \<Rightarrow> (agent_id \<times> 'act) list \<Rightarrow> 'g
     \<Rightarrow> (exn + ('st, 'obs) joint_timestep) \<times> 'g" where
  "model_step m st ja g =
     (case find (\<lambda>(i, a). \<not> action_space_contains m i a) ja of
        Some (i, a) \<Rightarrow> (Inl (InvalidActionError i), g)
      | None \<Rightarrow> (case transition m st ja g of (ts, g') \<Rightarrow> (Inr ts, g')))"

text \<open>Modelled from the spec: the Env driver of section 4.5 (\<open>core.DefaultEnv\<close> is
  missing): its three states, the current State it holds and its private RNG.\<close>

datatype status = UNINITIALIZED | READY | TERMINAL

text \<open>Modelled from the spec: what the Env driver of sections 2 and 4.5 holds
  (\<open>core.DefaultEnv\<close> is missing).\<close>

record ('st, 'g) driver =
  status :: status
  current_state :: "'st option"
  rng :: 'g

text \<open>Modelled from the spec: the six components the public step of section 6 returns
  (\<open>core.DefaultEnv\<close> is missing).\<close>

type_synonym 'obs public_step =
  "(agent_id \<times> 'obs) list \<times> (agent_id \<times> real) list \<times> (agent_id \<times> bool) list
     \<times> (agent_id \<times> bool) list \<times> bool \<times> (agent_id \<times> string) list"

text \<open>Modelled from the spec: \<open>reset(seed)\<close> of section 4.5 (missing): valid in any state,
  reseeds the RNG only when a seed is supplied, samples the initial state and
  observations from the model and returns to \<open>READY\<close>.\<close>

definition env_reset ::
  "'g rng_ops \<Rightarrow> ('st, 'act, 'obs, 'g) posg_model \<Rightarrow> nat option \<Rightarrow> ('st, 'g) driver
     \<Rightarrow> (agent_id \<times> 'obs) list \<times> ('st, 'g) driver" where
  "env_reset ops m seed e =
     (let g = (case seed of None \<Rightarrow> rng e | Some s \<Rightarrow> rng_seed ops s) in
      case sample_initial_state m g of
        (st, g') \<Rightarrow>
          (sample_initial_obs m st, \<lparr>status = READY, current_state = Some st, rng = g'\<rparr>))"

text \<open>Modelled from the spec: \<open>step(joint_action)\<close> of sections 4.5 and 6 (missing): only
  valid in \<open>READY\<close>; hands the current state and the actions to the model, stores the
  next state, and forwards the six public components. A failed step leaves the driver as
  it was.\<close>

definition env_step ::
  "('st, 'act, 'obs, 'g) posg_model \<Rightarrow> ('st, 'g) driver \<Rightarrow> (agent_id \<times> 'act) list
     \<Rightarrow> (exn + 'obs public_step) \<times> ('st, 'g) driver" where
  "env_step m e ja =
     (case (status e, current_state e) of
        (READY, Some st) \<Rightarrow>
          (case model_step m st ja (rng e) of
             (Inl x, g') \<Rightarrow> (Inl x, e)
           | (Inr ts, g') \<Rightarrow>
               (Inr (joint_observation ts, joint_reward ts, terminated ts, truncated ts,
                     episode_done ts, agent_info ts),
                \<lparr>status = (if episode_done ts then TERMINAL else READY),
                 current_state = Some (next_state ts), rng = g'\<rparr>))
      | _ \<Rightarrow> (Inl InvalidStateError, e))"

text \<open>Modelled from the spec: the step loop of sections 2 and 6 (\<open>core.DefaultEnv\<close> is
  missing): the joint actions applied one after the other, recording what each step
  returns and the State held afterwards.\<close>

fun run ::
  "('st, 'act, 'obs, 'g) posg_model \<Rightarrow> ('st, 'g) driver \<Rightarrow> (agent_id \<times> 'act) list list
     \<Rightarrow> ((exn + 'obs public_step) \<times> 'st option) list" where
  "run m e [] = []"
| "run m e (ja # jas) =
     (case env_step m e ja of (r, e') \<Rightarrow> (r, current_state e') # run m e' jas)"

subsection \<open>A grid, a generator and a configuration used as concrete inputs\<close>

text \<open>The 5 by 5 grid of the specification's concrete scenario, with one blocked cell.\<close>

definition example_grid :: grid where
  "example_grid = \<lparr>width = 5, height = 5, blocked = [(2, 2)]\<rparr>"

text \<open>A counter as generator state: the draw from the unit interval is the last decimal
  digit of the counter, in tenths.\<close>

definition example_rng :: "nat rng_ops" where
  "example_rng =
     \<lparr>rng_seed = (\<lambda>s. s),
      rng_random = (\<lambda>g. (real (g mod 10) / 10, Suc g)),
      rng_choice = (\<lambda>g n. (g mod n, Suc g))\<rparr>"

definition example_config :: resolver_config where
  "example_config =
     \<lparr>action_probs = 1, obstacle_collisions = True,
      action_set = [NORTH, SOUTH, EAST, WEST, NONE]\<rparr>"

definition noisy_config :: resolver_config where
  "noisy_config =
     \<lparr>action_probs = 1 / 2, obstacle_collisions = True,
      action_set = [NORTH, SOUTH, EAST, WEST, NONE]\<rparr>"

subsection \<open>A model used as concrete input\<close>

text \<open>A two-node channel in the style of the MABC environment: an action is 0 (no send)
  or 1 (send), the state counts the messages waiting, and a message goes through when
  exactly one node sends. The generator is the counter of \<open>example_rng\<close>.\<close>

definition example_model :: "(nat, nat, nat, nat) posg_model" where
  "example_model =
     \<lparr>action_space_contains = (\<lambda>i a. a < 2),
      sample_initial_state = (\<lambda>g. (g mod 3, Suc g)),
      sample_initial_obs = (\<lambda>st. [(''0'', 0), (''1'', 0)]),
      transition = (\<lambda>st ja g.
        (let sent = sum_list (map snd ja);
             collision = of_bool (1 < sent);
             st' = (st + g mod 2) - of_bool (sent = 1)
         in (\<lparr>next_state = st',
              joint_observation = map (\<lambda>(i, a). (i, collision)) ja,
              joint_reward = map (\<lambda>(i, a). (i, of_bool (sent = 1))) ja,
              terminated = map (\<lambda>(i, a). (i, False)) ja,
              truncated = map (\<lambda>(i, a). (i, False)) ja,
              episode_done = False,
              agent_info = []\<rparr>,
             Suc g)))\<rparr>"

section \<open>Properties of the wrapper chain\<close>

lemma unwrapped_chain:
  "unwrapped (foldr (\<lambda>(k, own). Wrapped k own) ws e) = unwrapped e"
  by (induction ws) (simp_all add: case_prod_beta)

lemma unwrapped_idem: "unwrapped (unwrapped e) = unwrapped e"
  by (induction e) simp_all

text \<open>
  C9. \<open>unwrapped\<close> strips every wrapper layer: on a base environment it is the
  environment itself, on a chain of wrappers \<open>ws\<close> built around a base environment it is
  that base environment, and applying it twice is the same as applying it once.
\<close>

theorem unwrapped_strips_all_layers:
  "unwrapped (Base b) = (Base b :: ('b, 'a, 'c, 'v) env)
   \<and> unwrapped (foldr (\<lambda>(k, own). Wrapped k own) ws (Base b :: ('b, 'a, 'c, 'v) env)) = Base b
   \<and> unwrapped (unwrapped (e :: ('b, 'a, 'c, 'v) env)) = unwrapped e"
  by (simp add: unwrapped_chain unwrapped_idem)

text \<open>
  C8. Each wrapper layer rewrites only its own component. When the wrapped
  environment's step returns \<open>(obs, reward, done, info)\<close>, \<open>ObservationWrapper.step\<close>
  returns the same tuple with only \<open>obs\<close> transformed, and \<open>RewardWrapper.step\<close> the same
  tuple with only \<open>reward\<close> transformed; when the wrapped step raises, both raise the
  same exception. \<open>ActionWrapper.step\<close> calls the wrapped environment on exactly
  \<open>actions a\<close> and returns its result unchanged. In each case the wrapped environment
  is left in the state its own step produces.
\<close>

theorem wrapper_step_rewrites_own_component:
  "(step bs e a = (Inr [obs, reward, done, info_dict], e') \<longrightarrow>
      step bs (Wrapped (ObservationWrapper observations) own e) a
        = (Inr [observations obs, reward, done, info_dict],
           Wrapped (ObservationWrapper observations) own e')
    \<and> step bs (Wrapped (RewardWrapper rewards) own e) a
        = (Inr [obs, rewards reward, done, info_dict], Wrapped (RewardWrapper rewards) own e'))
   \<and> (step bs e a = (Inl x, e') \<longrightarrow>
      step bs (Wrapped (ObservationWrapper observations) own e) a
        = (Inl x, Wrapped (ObservationWrapper observations) own e')
    \<and> step bs (Wrapped (RewardWrapper rewards) own e) a
        = (Inl x, Wrapped (RewardWrapper rewards) own e'))
   \<and> step bs (Wrapped (ActionWrapper actions reverse_actions) own e) a2
       = (fst (step bs e (actions a2)),
          Wrapped (ActionWrapper actions reverse_actions) own (snd (step bs e (actions a2))))"
  by (simp add: case_prod_beta)

theorem wrapper_step_rewrites_own_component_witness:
  "step four_tuple_step (Base 0 :: (nat, nat, nat, nat) env) 5 = (Inr [5, 1, 0, 0], Base 1)
   \<and> step four_tuple_step
         (Wrapped (ObservationWrapper (\<lambda>x. x + 10)) [] (Base 0 :: (nat, nat, nat, nat) env)) 5
       = (Inr [15, 1, 0, 0], Wrapped (ObservationWrapper (\<lambda>x. x + 10)) [] (Base 1))
   \<and> step four_tuple_step
         (Wrapped (RewardWrapper (\<lambda>x. x * 3)) [] (Base 0 :: (nat, nat, nat, nat) env)) 5
       = (Inr [5, 3, 0, 0], Wrapped (RewardWrapper (\<lambda>x. x * 3)) [] (Base 1))
   \<and> step four_tuple_step
         (Wrapped (ActionWrapper Suc (\<lambda>x. x - 1)) [] (Base 0 :: (nat, nat, nat, nat) env)) 5
       = (Inr [6, 1, 0, 0], Wrapped (ActionWrapper Suc (\<lambda>x. x - 1)) [] (Base 1))
   \<and> step six_tuple_step
         (Wrapped (ObservationWrapper Suc) [] (Base 0 :: (nat, nat, nat, nat) env)) 5
       = (Inl ValueError, Wrapped (ObservationWrapper Suc) [] (Base 1))
   \<and> step six_tuple_step
         (Wrapped (RewardWrapper (\<lambda>x. x * 3)) []
            (Wrapped (ObservationWrapper Suc) [] (Base 0 :: (nat, nat, nat, nat) env))) 5
       = (Inl ValueError,
          Wrapped (RewardWrapper (\<lambda>x. x * 3)) [] (Wrapped (ObservationWrapper Suc) [] (Base 1)))"
proof -
  have h: "step four_tuple_step (Base 0 :: (nat, nat, nat, nat) env) 5 = (Inr [5, 1, 0, 0], Base 1)"
    by (simp add: four_tuple_step_def)
  have r: "step six_tuple_step
             (Wrapped (ObservationWrapper Suc) [] (Base 0 :: (nat, nat, nat, nat) env)) 5
           = (Inl ValueError, Wrapped (ObservationWrapper Suc) [] (Base 1))"
    by (simp add: six_tuple_step_def)
  show ?thesis
    using h r
      wrapper_step_rewrites_own_component
        [of four_tuple_step "Base 0 :: (nat, nat, nat, nat) env" 5 5 1 0 0 "Base 1"
            "\<lambda>x. x + 10" "[]" "\<lambda>x. x * 3" _ Suc "\<lambda>x. x - 1" 5]
      wrapper_step_rewrites_own_component
        [of six_tuple_step "Wrapped (ObservationWrapper Suc) [] (Base 0 :: (nat, nat, nat, nat) env)"
            5 _ _ _ _ "Wrapped (ObservationWrapper Suc) [] (Base 1)" _ "[]" "\<lambda>x. x * 3"
            ValueError]
    by (simp add: four_tuple_step_def six_tuple_step_def)
qed

text \<open>
  C10. Attribute delegation excludes private names. For an attribute the wrapper does
  not itself define, a name starting with an underscore raises \<open>AttributeError\<close>, whatever
  the wrapped environment holds; any other name is looked up on the wrapped environment.
\<close>

theorem wrapper_getattr_delegates_public_only:
  "map_of own name = None \<Longrightarrow>
     getattr bg (Wrapped k own e) name
       = (if startswith_underscore name
          then Inl (AttributeError (missing_private_message name))
          else getattr bg e name)"
  by (simp add: Wrapper_getattr_def)

theorem wrapper_getattr_delegates_public_only_witness:
  "map_of [(''env'', 0::nat)] ''_step_num'' = None
   \<and> map_of [(''env'', 0::nat)] ''n_agents'' = None
   \<and> getattr example_getattr (Base 7 :: (nat, nat, nat, nat) env) ''_step_num'' = Inr 7
   \<and> getattr example_getattr (Wrapped Wrapper [(''env'', 0)] (Base 7 :: (nat, nat, nat, nat) env)) ''_step_num''
       = Inl (AttributeError (missing_private_message ''_step_num''))
   \<and> getattr example_getattr (Wrapped Wrapper [(''env'', 0)] (Base 7 :: (nat, nat, nat, nat) env)) ''n_agents''
       = Inr 2"
proof -
  have h1: "map_of [(''env'', 0::nat)] ''_step_num'' = None" by simp
  have h2: "map_of [(''env'', 0::nat)] ''n_agents'' = None" by simp
  show ?thesis
    using h1 h2
      wrapper_getattr_delegates_public_only
        [OF h1, of example_getattr Wrapper "Base 7 :: (nat, nat, nat, nat) env"]
      wrapper_getattr_delegates_public_only
        [OF h2, of example_getattr Wrapper "Base 7 :: (nat, nat, nat, nat) env"]
    by (simp add: example_getattr_def)
qed

section \<open>What \<open>step\<close> returns and when it raises\<close>

lemma unpack4_Inr_length: "unpack4 t = Inr q \<Longrightarrow> length t = 4"
  by (erule unpack4.elims) simp_all

lemma unpack4_not_four: "length t \<noteq> 4 \<Longrightarrow> unpack4 t = Inl ValueError"
  by (cases "unpack4 t") (auto elim: unpack4.elims)

lemma wrapper_step_result_four:
  assumes "k = ObservationWrapper f \<or> k = RewardWrapper f"
    and "wrapper_step_result k r = Inr t"
  shows "length t = 4"
proof (cases r)
  case (Inl x)
  with assms show ?thesis by auto
next
  case (Inr u)
  show ?thesis
  proof (cases "unpack4 u")
    case (Inl x)
    with Inr assms show ?thesis by auto
  next
    case (Inr q)
    with \<open>r = Inr u\<close> assms show ?thesis
      by (cases q) auto
  qed
qed

lemma wrapper_step_result_not_four:
  assumes "k = ObservationWrapper f \<or> k = RewardWrapper f"
    and "length t \<noteq> 4"
  shows "wrapper_step_result k (Inr t) = Inl ValueError"
  using assms by (auto simp: unpack4_not_four)

text \<open>
  Whatever the wrapped environment does, \<open>ObservationWrapper.step\<close> and
  \<open>RewardWrapper.step\<close> return a result of exactly four components or raise; on a
  wrapped result of six components they raise \<open>ValueError\<close>.
\<close>

lemma observation_reward_step_four_or_error:
  "k = ObservationWrapper f \<or> k = RewardWrapper f \<Longrightarrow>
     (fst (step bs (Wrapped k own e) a) = Inr r \<longrightarrow> length r = 4)
   \<and> (fst (step bs e a) = Inr t \<and> length t = 6
        \<longrightarrow> fst (step bs (Wrapped k own e) a) = Inl ValueError)"
proof (intro conjI impI)
  assume k: "k = ObservationWrapper f \<or> k = RewardWrapper f"
  have eq: "fst (step bs (Wrapped k own e) a) = wrapper_step_result k (fst (step bs e a))"
    using k by (auto simp: case_prod_beta)
  {
    assume "fst (step bs (Wrapped k own e) a) = Inr r"
    then show "length r = 4"
      using wrapper_step_result_four [OF k] eq by simp
  }
  {
    assume "fst (step bs e a) = Inr t \<and> length t = 6"
    then show "fst (step bs (Wrapped k own e) a) = Inl ValueError"
      using wrapper_step_result_not_four [OF k, of t] eq by simp
  }
qed


lemma wrapper_step_result_state_error:
  "(wrapper_step_result k r = Inl InvalidStateError) = (r = Inl InvalidStateError)"
proof (cases r)
  case (Inl x)
  then show ?thesis by (cases k) simp_all
next
  case (Inr t)
  show ?thesis
  proof (cases "unpack4 t")
    case (Inl x)
    then have "x = ValueError"
      by (auto elim: unpack4.elims)
    with Inl \<open>r = Inr t\<close> show ?thesis by (cases k) simp_all
  next
    case (Inr q)
    with \<open>r = Inr t\<close> show ?thesis by (cases k; cases q) simp_all
  qed
qed

lemma step_base_state:
  "base_of (snd (step bs e a)) = snd (bs (base_of e) (inner_actions e a))"
  by (induction e arbitrary: a) (simp_all add: case_prod_beta)

lemma step_state_error:
  "(fst (step bs e a) = Inl InvalidStateError)
     = (fst (bs (base_of e) (inner_actions e a)) = Inl InvalidStateError)"
  by (induction e arbitrary: a) (simp_all add: case_prod_beta wrapper_step_result_state_error)

lemma reset_base_state:
  "base_of (snd (reset br e seed)) = snd (br (base_of e) seed)"
  by (induction e) (simp_all add: case_prod_beta)

text \<open>
  The wrappers check no state of their own and hold none: through any chain of
  wrappers, step raises \<open>InvalidStateError\<close> exactly when the base environment's own
  step raises it on the forwarded actions, the base environment is left in the state
  its own step produces, and reset leaves the base environment in the state its own
  reset produces.
\<close>

lemma step_checks_no_state:
  "(fst (step bs e a) = Inl InvalidStateError)
     = (fst (bs (base_of e) (inner_actions e a)) = Inl InvalidStateError)
   \<and> base_of (snd (step bs e a)) = snd (bs (base_of e) (inner_actions e a))
   \<and> base_of (snd (reset br e seed)) = snd (br (base_of e) seed)"
  by (simp add: step_state_error step_base_state reset_base_state)

section \<open>The CollisionResolver\<close>


lemma substitute_actions_length:
  "length (fst (substitute_actions ops cfg g as)) = length as"
  by (induction as arbitrary: g) (simp_all add: case_prod_beta)

lemma candidate_cell_total: "\<exists>c. candidate_cell gr cfg cur a = Inr c"
  by (simp add: candidate_cell_def is_blocked_def Let_def)

lemma candidate_cells_total:
  "\<exists>cs. candidate_cells gr cfg ms = Inr cs \<and> length cs = length ms"
proof (induction ms)
  case Nil
  show ?case by simp
next
  case (Cons m ms)
  obtain cur a where m: "m = (cur, a)" by (cases m)
  obtain c where c: "candidate_cell gr cfg cur a = Inr c"
    using candidate_cell_total by blast
  from Cons obtain cs where cs: "candidate_cells gr cfg ms = Inr cs" "length cs = length ms"
    by blast
  show ?case using m c cs by simp
qed

lemma proposed_cells_total:
  "\<exists>cs. proposed_cells ops gr cfg g moves = Inr cs \<and> length cs = length moves"
  using candidate_cells_total [of gr cfg "zip (map fst moves) (executed_actions ops cfg g moves)"]
  by (simp add: proposed_cells_def executed_actions_def substitute_actions_length)

lemma resolve_proposed:
  assumes "proposed_cells ops gr cfg g moves = Inr cands"
  shows "fst (resolve ops gr cfg g moves)
           = Inr (map (\<lambda>(cur, cand). next_position cfg (zip (map fst moves) cands) cur cand)
                    (zip (map fst moves) cands))"
  using assms
  by (simp add: resolve_def proposed_cells_def executed_actions_def case_prod_beta Let_def)

lemma resolve_snd:
  "snd (resolve ops gr cfg g moves) = snd (substitute_actions ops cfg g (map snd moves))"
  by (simp add: resolve_def case_prod_beta Let_def split: sum.splits)

lemma claimants_two:
  assumes "i < length xs" "j < length xs" "i \<noteq> j" "xs ! i = xs ! j"
  shows "1 < claimants xs (xs ! i)"
proof -
  have sub: "{i, j} \<subseteq> {k. k < length xs \<and> xs ! k = xs ! i}"
    using assms by auto
  have "card {i, j} \<le> card {k. k < length xs \<and> xs ! k = xs ! i}"
    by (rule card_mono) (use sub in auto)
  moreover have "card {i, j} = 2" using assms by simp
  ultimately show ?thesis
    by (simp add: claimants_def length_filter_conv_card)
qed

lemma resolve_nth:
  assumes "proposed_cells ops gr cfg g moves = Inr cands" "i < length moves"
  shows "\<exists>next. fst (resolve ops gr cfg g moves) = Inr next \<and> length next = length moves
           \<and> next ! i = next_position cfg (zip (map fst moves) cands) (fst (moves ! i)) (cands ! i)"
proof -
  have len: "length cands = length moves"
    using proposed_cells_total [of ops gr cfg g moves] assms by simp
  show ?thesis
    using resolve_proposed [OF assms(1)] len assms(2) by simp
qed

lemma claimants_pos:
  assumes "i < length xs"
  shows "0 < claimants xs (xs ! i)"
proof -
  have "xs ! i \<in> set (filter (\<lambda>c'. c' = xs ! i) xs)"
    using assms by simp
  then have "filter (\<lambda>c'. c' = xs ! i) xs \<noteq> []"
    by fastforce
  then show ?thesis
    by (simp add: claimants_def)
qed

lemmas resolver_eval =
  resolve_def proposed_cells_def executed_actions_def substitute_action_def
  candidate_cell_def neighbor_def in_bounds_def is_blocked_def next_position_def
  claimants_def direct_swap_def example_rng_def example_grid_def example_config_def
  noisy_config_def

lemma candidate_cell_eq:
  "candidate_cell gr cfg cur a
     = Inr (if in_bounds gr (neighbor cur a)
               \<and> (obstacle_collisions cfg \<longrightarrow> neighbor cur a \<notin> set (blocked gr))
            then neighbor cur a else cur)"
  by (simp add: candidate_cell_def is_blocked_def Let_def)

lemma candidate_cells_nth:
  assumes "candidate_cells gr cfg ms = Inr cs" and "k < length ms"
  shows "candidate_cell gr cfg (fst (ms ! k)) (snd (ms ! k)) = Inr (cs ! k)"
  using assms
proof (induction ms arbitrary: cs k)
  case Nil
  then show ?case by simp
next
  case (Cons m ms)
  obtain cur a where m: "m = (cur, a)" by (cases m)
  obtain c where c: "candidate_cell gr cfg cur a = Inr c"
    using candidate_cell_total by blast
  obtain cs' where cs': "candidate_cells gr cfg ms = Inr cs'"
    using candidate_cells_total by blast
  have cs: "cs = c # cs'"
    using Cons.prems(1) m c cs' by simp
  show ?case
  proof (cases k)
    case 0
    then show ?thesis using m c cs by simp
  next
    case (Suc k')
    then show ?thesis
      using Cons.IH [OF cs', of k'] Cons.prems(2) cs by simp
  qed
qed

lemma no_substitution:
  assumes "\<And>g. fst (rng_random ops g) < action_probs cfg"
  shows "fst (substitute_actions ops cfg g as) = as"
proof (induction as arbitrary: g)
  case Nil
  show ?case by simp
next
  case (Cons a as)
  have "fst (substitute_action ops cfg g a) = a"
    using assms [of g] by (simp add: substitute_action_def case_prod_beta)
  then show ?case
    using Cons.IH by (simp add: case_prod_beta)
qed

lemma next_position_stay: "next_position cfg pcs cur cur = cur"
  by (simp add: next_position_def)

lemma contested_both_stay:
  assumes "proposed_cells ops gr cfg g moves = Inr cands"
    and "i < length moves" and "j < length moves" and "i \<noteq> j"
    and "cands ! i = cands ! j"
  shows "\<exists>nxt. fst (resolve ops gr cfg g moves) = Inr nxt
           \<and> nxt ! i = fst (moves ! i) \<and> nxt ! j = fst (moves ! j)"
proof -
  have len: "length cands = length moves"
    using proposed_cells_total [of ops gr cfg g moves] assms(1) by simp
  have snd_pcs: "map snd (zip (map fst moves) cands) = cands"
    using len by simp
  have ci: "1 < claimants cands (cands ! i)"
    using claimants_two [of i cands j] assms len by simp
  have cj: "1 < claimants cands (cands ! j)"
    using ci assms(5) by simp
  show ?thesis
    using resolve_proposed [OF assms(1)] len assms(2,3) ci cj
    by (simp add: next_position_def snd_pcs)
qed

lemma same_target_both_stay:
  assumes "executed_actions ops cfg g moves = map snd moves"
    and "i < length moves" and "j < length moves" and "i \<noteq> j"
    and "neighbor (fst (moves ! i)) (snd (moves ! i))
           = neighbor (fst (moves ! j)) (snd (moves ! j))"
  shows "\<exists>nxt. fst (resolve ops gr cfg g moves) = Inr nxt
           \<and> nxt ! i = fst (moves ! i) \<and> nxt ! j = fst (moves ! j)"
proof -
  obtain cands where cands: "proposed_cells ops gr cfg g moves = Inr cands"
    and len: "length cands = length moves"
    using proposed_cells_total [of ops gr cfg g moves] by blast
  have cc: "candidate_cells gr cfg moves = Inr cands"
    using cands assms(1) by (simp add: proposed_cells_def zip_map_fst_snd)
  define c where "c = neighbor (fst (moves ! j)) (snd (moves ! j))"
  define free where
    "free = (in_bounds gr c \<and> (obstacle_collisions cfg \<longrightarrow> c \<notin> set (blocked gr)))"
  have "candidate_cell gr cfg (fst (moves ! i)) (snd (moves ! i))
          = Inr (if free then c else fst (moves ! i))"
    unfolding candidate_cell_eq free_def c_def assms(5) ..
  then have ci: "cands ! i = (if free then c else fst (moves ! i))"
    using candidate_cells_nth [OF cc assms(2)] by simp
  have "candidate_cell gr cfg (fst (moves ! j)) (snd (moves ! j))
          = Inr (if free then c else fst (moves ! j))"
    unfolding candidate_cell_eq free_def c_def ..
  then have cj: "cands ! j = (if free then c else fst (moves ! j))"
    using candidate_cells_nth [OF cc assms(3)] by simp
  show ?thesis
  proof (cases free)
    case True
    then have "cands ! i = cands ! j"
      using ci cj by simp
    then show ?thesis
      using contested_both_stay [OF cands assms(2,3,4)] by blast
  next
    case False
    then have "cands ! i = fst (moves ! i)" "cands ! j = fst (moves ! j)"
      using ci cj by simp_all
    then show ?thesis
      using resolve_proposed [OF cands] len assms(2,3)
      by (simp add: next_position_stay)
  qed
qed

text \<open>
  C3. A cell claimed as candidate next cell by more than one agent is rejected for all
  of its claimants: whenever two different agents \<open>i\<close> and \<open>j\<close> have the same candidate
  cell, the resolver returns next positions in which both are at their current
  positions, whatever their order in the joint move. In particular, when the chosen
  actions are the ones executed (as with \<open>action_probs = 1\<close>) and the actions of two
  agents lead into the same cell, both agents' positions are unchanged.
\<close>

theorem contested_cell_rejected_for_all_claimants:
  assumes "i < length moves" and "j < length moves" and "i \<noteq> j"
  shows "(proposed_cells ops gr cfg g moves = Inr cands \<and> cands ! i = cands ! j
            \<longrightarrow> (\<exists>nxt. fst (resolve ops gr cfg g moves) = Inr nxt
                   \<and> nxt ! i = fst (moves ! i) \<and> nxt ! j = fst (moves ! j)))
       \<and> (executed_actions ops cfg g moves = map snd moves
          \<and> neighbor (fst (moves ! i)) (snd (moves ! i))
              = neighbor (fst (moves ! j)) (snd (moves ! j))
            \<longrightarrow> (\<exists>nxt. fst (resolve ops gr cfg g moves) = Inr nxt
                   \<and> nxt ! i = fst (moves ! i) \<and> nxt ! j = fst (moves ! j)))"
proof (intro conjI impI)
  assume "proposed_cells ops gr cfg g moves = Inr cands \<and> cands ! i = cands ! j"
  then show "\<exists>nxt. fst (resolve ops gr cfg g moves) = Inr nxt
               \<and> nxt ! i = fst (moves ! i) \<and> nxt ! j = fst (moves ! j)"
    using contested_both_stay [of ops gr cfg g moves cands i j] assms by simp
next
  assume "executed_actions ops cfg g moves = map snd moves
          \<and> neighbor (fst (moves ! i)) (snd (moves ! i))
              = neighbor (fst (moves ! j)) (snd (moves ! j))"
  then show "\<exists>nxt. fst (resolve ops gr cfg g moves) = Inr nxt
               \<and> nxt ! i = fst (moves ! i) \<and> nxt ! j = fst (moves ! j)"
    using same_target_both_stay [of ops cfg g moves i j gr] assms by simp
qed

theorem contested_cell_rejected_for_all_claimants_witness:
  "(0 :: nat) < length [((0, 1), EAST), ((1, 0), SOUTH), ((3 :: int, 3 :: int), WEST)]
   \<and> (1 :: nat) < length [((0, 1), EAST), ((1, 0), SOUTH), ((3 :: int, 3 :: int), WEST)]
   \<and> (0 :: nat) \<noteq> 1
   \<and> proposed_cells example_rng example_grid example_config 0
        [((0, 1), EAST), ((1, 0), SOUTH), ((3, 3), WEST)] = Inr [(1, 1), (1, 1), (2, 3)]
   \<and> [(1, 1), (1, 1), (2 :: int, 3 :: int)] ! 0 = [(1, 1), (1, 1), (2, 3)] ! 1
   \<and> executed_actions example_rng example_config 0
        [((0, 1), EAST), ((1, 0), SOUTH), ((3, 3), WEST)] = [EAST, SOUTH, WEST]
   \<and> neighbor (0, 1) EAST = neighbor (1, 0) SOUTH
   \<and> fst (resolve example_rng example_grid example_config 0
            [((0, 1), EAST), ((1, 0), SOUTH), ((3, 3), WEST)])
      = Inr [(0, 1), (1, 0), (2, 3)]"
proof -
  have h1: "(0 :: nat) < length [((0, 1), EAST), ((1, 0), SOUTH), ((3 :: int, 3 :: int), WEST)]"
    by simp
  have h2: "(1 :: nat) < length [((0, 1), EAST), ((1, 0), SOUTH), ((3 :: int, 3 :: int), WEST)]"
    by simp
  have h3: "(0 :: nat) \<noteq> 1" by simp
  have h4: "proposed_cells example_rng example_grid example_config 0
              [((0, 1), EAST), ((1, 0), SOUTH), ((3, 3), WEST)] = Inr [(1, 1), (1, 1), (2, 3)]"
    by (simp add: resolver_eval)
  have h5: "executed_actions example_rng example_config 0
              [((0, 1), EAST), ((1, 0), SOUTH), ((3, 3), WEST)] = [EAST, SOUTH, WEST]"
    by (simp add: resolver_eval)
  have h6: "neighbor (0, 1) EAST = neighbor (1, 0) SOUTH"
    by (simp add: neighbor_def)
  show ?thesis
    using h4 h5 h6
      contested_cell_rejected_for_all_claimants
        [OF h1 h2 h3, of example_rng example_grid example_config 0 "[(1, 1), (1, 1), (2, 3)]"]
    by (simp add: resolver_eval)
qed

text \<open>
  C7. The resolver never raises and finishes in one pass: for every grid, configuration,
  generator state and joint move it returns one next position per agent, and an agent
  either stays in its current cell or moves to its candidate cell, the latter only when
  no other agent claims that cell.
\<close>

theorem resolve_never_raises:
  "\<exists>cands next g'.
      proposed_cells ops gr cfg g moves = Inr cands
    \<and> resolve ops gr cfg g moves = (Inr next, g')
    \<and> length next = length moves
    \<and> (\<forall>i < length moves.
          next ! i = fst (moves ! i)
        \<or> (next ! i = cands ! i \<and> claimants cands (cands ! i) = 1))"
proof -
  obtain cands where cands: "proposed_cells ops gr cfg g moves = Inr cands"
    and len: "length cands = length moves"
    using proposed_cells_total [of ops gr cfg g moves] by blast
  define pcs where "pcs = zip (map fst moves) cands"
  define nxt where "nxt = map (\<lambda>(cur, cand). next_position cfg pcs cur cand) pcs"
  have res: "resolve ops gr cfg g moves = (Inr nxt, snd (resolve ops gr cfg g moves))"
    using resolve_proposed [OF cands] by (simp add: nxt_def pcs_def prod_eq_iff)
  have nlen: "length nxt = length moves"
    using len by (simp add: nxt_def pcs_def)
  have each: "nxt ! i = fst (moves ! i)
              \<or> (nxt ! i = cands ! i \<and> claimants cands (cands ! i) = 1)"
    if i: "i < length moves" for i
  proof -
    have snd_pcs: "map snd pcs = cands"
      using len by (simp add: pcs_def)
    have ni: "nxt ! i = next_position cfg pcs (fst (moves ! i)) (cands ! i)"
      using i len by (simp add: nxt_def pcs_def)
    have "0 < claimants cands (cands ! i)"
      using claimants_pos [of i cands] i len by simp
    then show ?thesis
      using ni by (auto simp: next_position_def snd_pcs)
  qed
  show ?thesis
    using cands res nlen each by blast
qed

theorem resolve_never_raises_witness:
  "proposed_cells example_rng example_grid noisy_config 4
     [((0, 1), EAST), ((1, 0), SOUTH), ((4, 4), EAST), ((2, 1), SOUTH)]
     = Inr [(1, 1), (0, 0), (4, 3), (1, 1)]
   \<and> resolve example_rng example_grid noisy_config 4
     [((0, 1), EAST), ((1, 0), SOUTH), ((4, 4), EAST), ((2, 1), SOUTH)]
     = (Inr [(0, 1), (0, 0), (4, 3), (2, 1)], 11)"
  using resolve_never_raises
          [of example_rng example_grid noisy_config 4
              "[((0, 1), EAST), ((1, 0), SOUTH), ((4, 4), EAST), ((2, 1), SOUTH)]"]
  by (simp add: resolver_eval)


section \<open>The driver: invalid actions and seeded runs\<close>

lemma find_first:
  "\<exists>x \<in> set xs. P x \<Longrightarrow> \<exists>y. find P xs = Some y \<and> y \<in> set xs \<and> P y"
  by (induction xs) auto

lemma find_offender:
  assumes "(i, a) \<in> set ja" and "\<not> action_space_contains m i a"
  shows "\<exists>j b. find (\<lambda>(i, a). \<not> action_space_contains m i a) ja = Some (j, b)
           \<and> (j, b) \<in> set ja \<and> \<not> action_space_contains m j b"
proof -
  let ?P = "\<lambda>(i, a). \<not> action_space_contains m i a"
  have "\<exists>x \<in> set ja. ?P x"
    using assms by (intro bexI [of _ "(i, a)"]) simp_all
  then obtain p where p: "find ?P ja = Some p" "p \<in> set ja" "?P p"
    using find_first [of ja ?P] by blast
  then show ?thesis
    by (cases p) auto
qed

text \<open>
  C5. A joint action in which some agent's action is not contained in that agent's
  action space is rejected: the model's step, and the step of a driver that holds a
  current State, fail with \<open>InvalidActionError\<close> naming an agent whose action is outside
  its space; the generator and the driver, with its current State, are exactly as
  before the call.
\<close>

theorem invalid_action_rejected_state_unchanged:
  assumes "(i, a) \<in> set ja" and "\<not> action_space_contains m i a"
    and "status e = READY" and "current_state e = Some st"
  shows "\<exists>j b. (j, b) \<in> set ja \<and> \<not> action_space_contains m j b
           \<and> model_step m st ja g = (Inl (InvalidActionError j), g)
           \<and> env_step m e ja = (Inl (InvalidActionError j), e)
           \<and> current_state (snd (env_step m e ja)) = Some st"
proof -
  obtain j b where f: "find (\<lambda>(i, a). \<not> action_space_contains m i a) ja = Some (j, b)"
    and jb: "(j, b) \<in> set ja" "\<not> action_space_contains m j b"
    using find_offender [OF assms(1,2)] by blast
  have ms: "model_step m st ja g' = (Inl (InvalidActionError j), g')" for g'
    using f by (simp add: model_step_def)
  have es: "env_step m e ja = (Inl (InvalidActionError j), e)"
    using assms(3,4) ms [of "rng e"] by (simp add: env_step_def)
  show ?thesis
    using jb ms [of g] es assms(4) by auto
qed

lemmas driver_eval =
  env_step_def env_reset_def model_step_def example_model_def example_rng_def

theorem invalid_action_rejected_state_unchanged_witness:
  "(''1'', 5) \<in> set [(''0'', 1 :: nat), (''1'', 5)]
   \<and> \<not> action_space_contains example_model ''1'' 5
   \<and> status \<lparr>status = READY, current_state = Some (2 :: nat), rng = 7 :: nat\<rparr> = READY
   \<and> current_state \<lparr>status = READY, current_state = Some (2 :: nat), rng = 7 :: nat\<rparr> = Some 2
   \<and> env_step example_model \<lparr>status = READY, current_state = Some 2, rng = 7\<rparr>
        [(''0'', 1), (''1'', 5)]
      = (Inl (InvalidActionError ''1''), \<lparr>status = READY, current_state = Some 2, rng = 7\<rparr>)
   \<and> fst (env_step example_model \<lparr>status = READY, current_state = Some 2, rng = 7\<rparr>
        [(''0'', 1), (''1'', 0)])
      = Inr ([(''0'', 0), (''1'', 0)], [(''0'', 1), (''1'', 1)], [(''0'', False), (''1'', False)],
             [(''0'', False), (''1'', False)], False, [])"
proof -
  have h1: "(''1'', 5) \<in> set [(''0'', 1 :: nat), (''1'', 5)]" by simp
  have h2: "\<not> action_space_contains example_model ''1'' 5"
    by (simp add: example_model_def)
  have h3: "status \<lparr>status = READY, current_state = Some (2 :: nat), rng = 7 :: nat\<rparr> = READY"
    by simp
  have h4: "current_state \<lparr>status = READY, current_state = Some (2 :: nat), rng = 7 :: nat\<rparr>
              = Some 2"
    by simp
  show ?thesis
    using h2 invalid_action_rejected_state_unchanged [OF h1 h2 h3 h4, of 7]
    by (simp add: driver_eval)
qed

text \<open>
  The modelled driver follows the state machine of section 4.5: outside \<open>READY\<close> its
  step fails with \<open>InvalidStateError\<close> and leaves it as it was, a step whose timestep
  is \<open>episode_done\<close> leaves it \<open>TERMINAL\<close>, and reset leaves it \<open>READY\<close> from any state.
\<close>

lemma driver_state_machine:
  "(status e \<noteq> READY \<longrightarrow> env_step m e ja = (Inl InvalidStateError, e))
   \<and> (env_step m e ja = (Inr r, e') \<longrightarrow>
        status e = READY
        \<and> status e' = (if fst (snd (snd (snd (snd r)))) then TERMINAL else READY))
   \<and> status (snd (env_reset ops m seed e)) = READY"
proof -
  have outside: "env_step m e ja = (Inl InvalidStateError, e)" if "status e \<noteq> READY"
    using that by (cases "status e") (simp_all add: env_step_def)
  have inside: "status e = READY
      \<and> status e' = (if fst (snd (snd (snd (snd r)))) then TERMINAL else READY)"
    if ok: "env_step m e ja = (Inr r, e')"
  proof -
    have rdy: "status e = READY"
      using ok outside by (cases "status e = READY") auto
    have "status e' = (if fst (snd (snd (snd (snd r)))) then TERMINAL else READY)"
      using ok rdy
      by (auto simp: env_step_def split: option.splits prod.splits sum.splits)
    with rdy show ?thesis by simp
  qed
  have "status (snd (env_reset ops m seed e)) = READY"
    by (simp add: env_reset_def case_prod_beta Let_def)
  with outside inside show ?thesis by blast
qed

text \<open>
  On the modelled driver, two runs with the same seed and the same joint actions are
  identical: after \<open>reset(seed)\<close> the driver is the same whatever it was before, so
  every step of the run returns the same observations and rewards and holds the same
  State, and the action substitution of the resolver, drawing from the driver's
  generator, executes the same actions. Without a seed the generator continues, and the
  run depends on what came before.
\<close>

lemma same_seed_same_run:
  "env_reset ops m (Some s) e1 = env_reset ops m (Some s) e2
   \<and> run m (snd (env_reset ops m (Some s) e1)) jas
       = run m (snd (env_reset ops m (Some s) e2)) jas
   \<and> executed_actions ops cfg (rng (snd (env_reset ops m (Some s) e1))) moves
       = executed_actions ops cfg (rng (snd (env_reset ops m (Some s) e2))) moves"
  by (simp add: env_reset_def)


lemma same_seed_same_run_example:
  "run example_model
     (snd (env_reset example_rng example_model (Some 4)
             \<lparr>status = UNINITIALIZED, current_state = None, rng = 17\<rparr>))
     [[(''0'', 1), (''1'', 0)], [(''0'', 1), (''1'', 1)]]
   = [(Inr ([(''0'', 0), (''1'', 0)], [(''0'', 1), (''1'', 1)],
            [(''0'', False), (''1'', False)], [(''0'', False), (''1'', False)], False, []),
       Some 1),
      (Inr ([(''0'', 1), (''1'', 1)], [(''0'', 0), (''1'', 0)],
            [(''0'', False), (''1'', False)], [(''0'', False), (''1'', False)], False, []),
       Some 1)]
   \<and> run example_model
     (snd (env_reset example_rng example_model (Some 4)
             \<lparr>status = TERMINAL, current_state = Some 0, rng = 99\<rparr>))
     [[(''0'', 1), (''1'', 0)], [(''0'', 1), (''1'', 1)]]
   = [(Inr ([(''0'', 0), (''1'', 0)], [(''0'', 1), (''1'', 1)],
            [(''0'', False), (''1'', False)], [(''0'', False), (''1'', False)], False, []),
       Some 1),
      (Inr ([(''0'', 1), (''1'', 1)], [(''0'', 0), (''1'', 0)],
            [(''0'', False), (''1'', False)], [(''0'', False), (''1'', False)], False, []),
       Some 1)]"
  using same_seed_same_run
          [of example_rng example_model 4
              "\<lparr>status = UNINITIALIZED, current_state = None, rng = 17\<rparr>"
              "\<lparr>status = TERMINAL, current_state = Some 0, rng = 99\<rparr>"
              "[[(''0'', 1), (''1'', 0)], [(''0'', 1), (''1'', 1)]]"]
  by (simp add: driver_eval)

section \<open>How the heuristic policies read an observation\<close>

text \<open>
  \<open>get_next_state\<close> keeps no entry of another agent whose first coordinate is the
  sentinel \<open>-1\<close>, and no entry but those of \<open>agent_obs[1:]\<close>.
\<close>

lemma other_agent_obs_skips_sentinel:
  assumes "ob \<in> set (other_agent_obs agent_obs)"
  shows "ob \<in> set (tl agent_obs) \<and> fst ob \<noteq> -1"
  using assms by (auto simp: other_agent_obs_def)

text \<open>Every coordinate \<open>_get_food_by_distance\<close> may return comes from an entry of
  \<open>food_obs\<close> whose \<open>x\<close> is not the sentinel.\<close>

lemma food_distances_sound:
  assumes "map_of (food_distances p mfl food_obs acc) d = Some cs" and "c \<in> set cs"
    and "\<And>d' cs' c'. map_of acc d' = Some cs' \<Longrightarrow> c' \<in> set cs' \<Longrightarrow> Q c'"
    and "\<And>y x l. (y, x, l) \<in> set food_obs \<Longrightarrow> x \<noteq> -1 \<Longrightarrow> Q (y, x)"
  shows "Q c"
  using assms
proof (induction food_obs arbitrary: acc)
  case Nil
  then show ?case by simp
next
  case (Cons entry food_obs)
  obtain y x l where entry: "entry = (y, x, l)"
    by (cases entry)
  show ?case
  proof (cases "x = -1 \<or> (case mfl of None \<Rightarrow> False | Some m \<Rightarrow> l > m)")
    case True
    then have "map_of (food_distances p mfl food_obs acc) d = Some cs"
      using Cons.prems(1) entry by simp
    then show ?thesis
      using Cons.IH [of acc] Cons.prems(2,3,4) by (metis list.set_intros(2))
  next
    case False
    define dist where
      "dist = (fst p - y) * (fst p - y) + (snd p - x) * (snd p - x)"
    define found where
      "found = (case map_of acc dist of None \<Rightarrow> [] | Some cs \<Rightarrow> cs)"
    define acc' where "acc' = AList.update dist (found @ [(y, x)]) acc"
    have run: "map_of (food_distances p mfl food_obs acc') d = Some cs"
      using Cons.prems(1) entry False
      by (simp add: acc'_def found_def dist_def Let_def)
    have Qyx: "Q (y, x)"
      using Cons.prems(4) [of y x l] entry False by simp
    have Qfound: "Q c'" if "c' \<in> set found" for c'
      using that Cons.prems(3) [of dist found c']
      by (cases "map_of acc dist") (simp_all add: found_def)
    have inv: "Q c'" if "map_of acc' d' = Some cs'" and "c' \<in> set cs'" for d' cs' c'
    proof (cases "d' = dist")
      case True
      then have "cs' = found @ [(y, x)]"
        using that(1) by (simp add: acc'_def update_conv')
      then have "c' = (y, x) \<or> c' \<in> set found"
        using that(2) by auto
      then show ?thesis
        using Qyx Qfound [of c'] by blast
    next
      case False
      then have "map_of acc d' = Some cs'"
        using that(1) by (simp add: acc'_def update_conv')
      then show ?thesis
        using Cons.prems(3) that(2) by blast
    qed
    show ?thesis
      using Cons.IH [of acc', OF run Cons.prems(2)] inv Cons.prems(4)
      by (metis list.set_intros(2))
  qed
qed

lemma get_food_by_distance_sound:
  assumes "get_food_by_distance p food_obs closest mfl = Some cs" and "c \<in> set cs"
  shows "\<exists>l. (fst c, snd c, l) \<in> set food_obs \<and> snd c \<noteq> -1"
proof -
  obtain d where d: "map_of (food_distances p mfl food_obs []) d = Some cs"
    using assms(1) by (auto simp: get_food_by_distance_def Let_def split: if_splits)
  show ?thesis
    by (rule food_distances_sound
          [where Q = "\<lambda>c. \<exists>l. (fst c, snd c, l) \<in> set food_obs \<and> snd c \<noteq> -1",
           OF d assms(2)]) auto
qed

end
